theory Spec2Isabelle
  imports Main "HOL-Library.Multiset"
begin

section \<open>Resolving git remotes to GitHub repositories (context/context.go)\<close>

subsection \<open>Collaborating types\<close>

text \<open>
  Modelled from the spec: the \<^verbatim>\<open>Remote\<close> struct (context/remotes.go) is declared
  outside the source at hand. Section 3 of the specification gives its attributes: a name,
  an owner, a repository name and an optional resolved name.
\<close>

record Remote =
  name :: string
  owner :: string
  repoName :: string
  resolvedName :: "string option"

text \<open>
  Modelled from the spec: a repository candidate (\<^verbatim>\<open>ghrepo.ghRepo\<close>) is the
  (owner, name) pair of section 3.
\<close>

record ghRepo =
  ghOwner :: string
  ghName :: string

text \<open>
  Modelled from the spec: repository metadata (\<^verbatim>\<open>api.Repository\<close>) has an identity
  (owner, name), a nullable parent and the capability \<^verbatim>\<open>canPush\<close> (section 3), which
  the method \<^verbatim>\<open>ViewerCanPush()\<close> reads.
\<close>

datatype Repository =
  Repository (repoOwnerLogin: string) (repoNameOf: string)
    (Parent: "Repository option") (ViewerCanPush: bool)

text \<open>
  Modelled from the spec: the parent is set if and only if the repository is a fork
  (section 3), so \<^verbatim>\<open>IsFork()\<close> holds exactly when the parent is not null.
\<close>

definition IsFork :: "Repository \<Rightarrow> bool" where
  "IsFork r = (Parent r \<noteq> None)"

text \<open>
  \<^verbatim>\<open>ghrepo.Interface\<close> is implemented by the three types above; a value of the interface
  is one of them. It exposes \<^verbatim>\<open>RepoOwner()\<close> and \<^verbatim>\<open>RepoName()\<close>.
\<close>

datatype Interface = IRemote Remote | IGhRepo ghRepo | IRepository Repository

fun RepoOwner :: "Interface \<Rightarrow> string" where
  "RepoOwner (IRemote r) = owner r"
| "RepoOwner (IGhRepo g) = ghOwner g"
| "RepoOwner (IRepository m) = repoOwnerLogin m"

fun RepoName :: "Interface \<Rightarrow> string" where
  "RepoName (IRemote r) = repoName r"
| "RepoName (IGhRepo g) = ghName g"
| "RepoName (IRepository m) = repoNameOf m"

text \<open>
  Modelled from the spec: \<^verbatim>\<open>ghrepo.IsSame\<close> is the case-insensitive equality of owner
  and name (section 4.2, step 3). Case folding is taken on the ASCII letters.
\<close>

definition toLower :: "char \<Rightarrow> char" where
  "toLower c =
     (case map_of (zip ''ABCDEFGHIJKLMNOPQRSTUVWXYZ'' ''abcdefghijklmnopqrstuvwxyz'') c of
        Some l \<Rightarrow> l
      | None \<Rightarrow> c)"

definition EqualFold :: "string \<Rightarrow> string \<Rightarrow> bool" where
  "EqualFold s t = (map toLower s = map toLower t)"

definition IsSame :: "Interface \<Rightarrow> Interface \<Rightarrow> bool" where
  "IsSame a b = (EqualFold (RepoOwner a) (RepoOwner b) \<and> EqualFold (RepoName a) (RepoName b))"

text \<open>
  Modelled from the spec: \<^verbatim>\<open>ghrepo.FullName\<close> renders a repository identity in the
  form \<^verbatim>\<open>owner/name\<close> (section 3).
\<close>

definition FullName :: "Interface \<Rightarrow> string" where
  "FullName r = RepoOwner r @ ''/'' @ RepoName r"

text \<open>
  Modelled from the spec: the order of a Remote Set (\<^verbatim>\<open>Remotes.Less\<close>, section 4.1).
  The sort key of a remote is the index of its name in the preference list; any other name
  gets the length of that list. \<^verbatim>\<open>sort.Stable\<close> returns the one stable arrangement by
  that key, which is what insertion by key computes.
\<close>

definition sortKey :: "Remote \<Rightarrow> nat" where
  "sortKey r =
     (if name r = ''upstream'' then 0
      else if name r = ''github'' then 1
      else if name r = ''origin'' then 2
      else 3)"

definition sortStable :: "Remote list \<Rightarrow> Remote list" where
  "sortStable rs = sort_key sortKey rs"

text \<open>
  The errors of context.go, and the run-time panic of an indexing expression:
  \<^item> \<open>NotFound\<close> is \<^verbatim>\<open>errors.New("not found")\<close>;
  \<^item> \<open>RepoNotFound n\<close> is
    \<^verbatim>\<open>fmt.Errorf("failed looking up information about the '%s' repository", n)\<close>;
  \<^item> \<open>NoPushAccess\<close> is \<^verbatim>\<open>errors.New("none of the repositories have push access")\<close>;
  \<^item> \<open>LookupFailed msg\<close> is an error returned by \<^verbatim>\<open>api.RepoNetwork\<close>;
  \<^item> \<open>IndexOutOfRange i n\<close> is Go's panic "index out of range [i] with length n".
\<close>

datatype error =
  NotFound
| RepoNotFound string
| NoPushAccess
| LookupFailed string
| IndexOutOfRange nat nat

text \<open>
  \<^verbatim>\<open>api.RepoNetworkResult\<close>: of its fields context.go reads \<^verbatim>\<open>Repositories\<close>, a slice
  of nullable pointers.
\<close>

record RepoNetworkResult =
  Repositories :: "Repository option list"

definition emptyNetworkResult :: RepoNetworkResult where
  "emptyNetworkResult = \<lparr>Repositories = []\<rparr>"

text \<open>
  The network collaborator \<^verbatim>\<open>api.RepoNetwork(client, repos)\<close> is a parameter: a function
  from the candidate list to a failure or a result. Section 6 of the specification states
  its contract: the result has one slot per candidate.
\<close>

type_synonym Client = "Interface list \<Rightarrow> error + RepoNetworkResult"

definition sameLength :: "Client \<Rightarrow> bool" where
  "sameLength client =
     (\<forall>repos res. client repos = Inr res \<longrightarrow> length (Repositories res) = length repos)"

subsection \<open>ResolveRemotesToRepos\<close>

definition maxRemotesForLookup :: nat where
  "maxRemotesForLookup = 5"

record ResolvedRemotes =
  baseOverride :: "Interface option"
  remotes :: "Remote list"
  network :: RepoNetworkResult

text \<open>
  The loop of lines 42 to 47 over \<^verbatim>\<open>remotes[:lenRemotesForLookup]\<close>: the state is the
  pair of \<^verbatim>\<open>repos\<close> and \<^verbatim>\<open>foundBaseOverride\<close>.
\<close>

fun lookupLoop :: "Interface \<Rightarrow> Remote list \<Rightarrow> Interface list \<times> bool \<Rightarrow> Interface list \<times> bool" where
  "lookupLoop bo [] (repos, found) = (repos, found)"
| "lookupLoop bo (r # rs) (repos, found) =
     lookupLoop bo rs (repos @ [IRemote r], if IsSame (IRemote r) bo then True else found)"

text \<open>
  Lines 32 to 52: the candidate list \<^verbatim>\<open>repos\<close> that is handed to \<^verbatim>\<open>api.RepoNetwork\<close>.
  \<^verbatim>\<open>ghrepo.FromFullName\<close> is outside the source at hand and is a parameter.
\<close>

definition lookupRepos :: "(string \<Rightarrow> ghRepo) \<Rightarrow> Remote list \<Rightarrow> string \<Rightarrow> Interface list" where
  "lookupRepos FromFullName rs base =
     (let sorted = sortStable rs;
          lenRemotesForLookup =
            (if length sorted > maxRemotesForLookup then maxRemotesForLookup else length sorted);
          hasBaseOverride = (base \<noteq> '''');
          bo = IGhRepo (FromFullName base);
          (repos, foundBaseOverride) = lookupLoop bo (take lenRemotesForLookup sorted) ([], False)
      in if hasBaseOverride \<and> \<not> foundBaseOverride then repos @ [bo] else repos)"

text \<open>
  Lines 31 to 64. Go returns the pair of the result and the error; the error is
  \<open>None\<close> for \<^verbatim>\<open>nil\<close>.
\<close>

definition ResolveRemotesToRepos ::
  "(string \<Rightarrow> ghRepo) \<Rightarrow> Client \<Rightarrow> Remote list \<Rightarrow> string \<Rightarrow> ResolvedRemotes \<times> error option" where
  "ResolveRemotesToRepos FromFullName client rs base =
     (let sorted = sortStable rs;
          hasBaseOverride = (base \<noteq> '''');
          repos = lookupRepos FromFullName rs base;
          result = \<lparr>baseOverride = (if hasBaseOverride then Some (IGhRepo (FromFullName base)) else None),
                    remotes = sorted,
                    network = emptyNetworkResult\<rparr>
      in case client repos of
           Inl err \<Rightarrow> (result, Some err)
         | Inr networkResult \<Rightarrow> (result\<lparr>network := networkResult\<rparr>, None))"

subsection \<open>Queries on the resolved remotes\<close>

text \<open>Lines 76 to 82: the scan for the override.\<close>

fun overrideLoop :: "Interface \<Rightarrow> Repository option list \<Rightarrow> error + Repository option" where
  "overrideLoop bo [] = Inl (RepoNotFound (FullName bo))"
| "overrideLoop bo (None # rest) = overrideLoop bo rest"
| "overrideLoop bo (Some repo # rest) =
     (if IsSame (IRepository repo) bo then Inr (Some repo) else overrideLoop bo rest)"

text \<open>Lines 85 to 95: the scan without an override.\<close>

fun firstRepoLoop :: "Repository option list \<Rightarrow> error + Repository option" where
  "firstRepoLoop [] = Inl NotFound"
| "firstRepoLoop (None # rest) = firstRepoLoop rest"
| "firstRepoLoop (Some repo # rest) =
     (if IsFork repo then Inr (Parent repo) else Inr (Some repo))"

text \<open>
  \<^verbatim>\<open>BaseRepo\<close> returns a pointer and an error: \<open>Inr None\<close> is the pair of a nil
  pointer and a nil error.
\<close>

definition BaseRepo :: "ResolvedRemotes \<Rightarrow> error + Repository option" where
  "BaseRepo r =
     (case baseOverride r of
        Some bo \<Rightarrow> overrideLoop bo (Repositories (network r))
      | None \<Rightarrow> firstRepoLoop (Repositories (network r)))"

fun headLoop :: "Repository option list \<Rightarrow> error + Repository option" where
  "headLoop [] = Inl NoPushAccess"
| "headLoop (None # rest) = headLoop rest"
| "headLoop (Some repo # rest) =
     (if ViewerCanPush repo then Inr (Some repo) else headLoop rest)"

definition HeadRepo :: "ResolvedRemotes \<Rightarrow> error + Repository option" where
  "HeadRepo r = headLoop (Repositories (network r))"

text \<open>
  Lines 110 to 117: the loop over \<^verbatim>\<open>r.remotes\<close> with its index. The right operand of
  \<^verbatim>\<open>||\<close> is evaluated only when the left one is false; it indexes
  \<^verbatim>\<open>r.network.Repositories\<close>, which panics out of range.
\<close>

fun remoteLoop :: "Repository option list \<Rightarrow> Interface \<Rightarrow> nat \<Rightarrow> Remote list \<Rightarrow> error + Remote" where
  "remoteLoop repositories repo i [] = Inl NotFound"
| "remoteLoop repositories repo i (remote # rest) =
     (if IsSame (IRemote remote) repo then Inr remote
      else if length repositories \<le> i then Inl (IndexOutOfRange i (length repositories))
      else (case repositories ! i of
              Some m \<Rightarrow>
                if IsSame (IRepository m) repo then Inr remote
                else remoteLoop repositories repo (Suc i) rest
            | None \<Rightarrow> remoteLoop repositories repo (Suc i) rest))"

definition RemoteForRepo :: "ResolvedRemotes \<Rightarrow> Interface \<Rightarrow> error + Remote" where
  "RemoteForRepo r repo = remoteLoop (Repositories (network r)) repo 0 (remotes r)"

subsection \<open>Collaborators and inputs of the examples\<close>

text \<open>
  Modelled from the spec: an override string has the form \<^verbatim>\<open>owner/name\<close> (section 3);
  this parser takes the owner before the first slash and the name after it. The theorems
  below hold for every parser; this one is the \<^verbatim>\<open>FromFullName\<close> of the examples, which
  give it strings of that form and the empty string.
\<close>

definition splitFullName :: "string \<Rightarrow> ghRepo" where
  "splitFullName s =
     \<lparr>ghOwner = takeWhile (\<lambda>c. c \<noteq> CHR ''/'') s,
      ghName = drop 1 (dropWhile (\<lambda>c. c \<noteq> CHR ''/'') s)\<rparr>"

text \<open>Two lookups: one succeeds and resolves no candidate (every slot is null), one fails
  outright.\<close>

definition nullClient :: Client where
  "nullClient repos = Inr \<lparr>Repositories = map (\<lambda>c. None) repos\<rparr>"

definition failingClient :: Client where
  "failingClient repos = Inl (LookupFailed ''transport'')"

text \<open>A lookup that resolves every candidate to a repository of the candidate's own
  identity, with no parent and with push access: its answer shows the list it was given.\<close>

definition echoClient :: Client where
  "echoClient repos =
     Inr \<lparr>Repositories = map (\<lambda>c. Some (Repository (RepoOwner c) (RepoName c) None True)) repos\<rparr>"

definition remoteOf :: "string \<Rightarrow> string \<Rightarrow> string \<Rightarrow> Remote" where
  "remoteOf n ow rp = \<lparr>name = n, owner = ow, repoName = rp, resolvedName = None\<rparr>"

definition sixRemotes :: "Remote list" where
  "sixRemotes =
     [remoteOf ''fork'' ''me'' ''cli'',
      remoteOf ''origin'' ''cli'' ''cli'',
      remoteOf ''mirror'' ''mirror'' ''cli'',
      remoteOf ''upstream'' ''up'' ''cli'',
      remoteOf ''backup'' ''backup'' ''cli'',
      remoteOf ''github'' ''gh'' ''cli'']"

definition sevenRemotes :: "Remote list" where
  "sevenRemotes = sixRemotes @ [remoteOf ''extra'' ''extra'' ''cli'']"

section \<open>Properties\<close>

subsection \<open>Identity and order\<close>

lemma EqualFold_refl: "EqualFold s s"
  by (simp add: EqualFold_def)

lemma IsSame_identity: "RepoOwner a = RepoOwner b \<Longrightarrow> RepoName a = RepoName b \<Longrightarrow> IsSame a b"
  by (simp add: IsSame_def EqualFold_refl)

lemma Parent_neq: "Parent m = Some p \<Longrightarrow> p \<noteq> m"
proof
  assume a: "Parent m = Some p" "p = m"
  have "size p < size m" using a(1) by (cases m) simp
  with a(2) show False by simp
qed

lemma sortStable_length: "length (sortStable rs) = length rs"
  by (simp add: sortStable_def)

lemma sortStable_sorted: "sorted (map sortKey (sortStable rs))"
  by (simp add: sortStable_def)

lemma sortStable_mset: "mset (sortStable rs) = mset rs"
  by (simp add: sortStable_def)

lemma sortStable_stable:
  "filter (\<lambda>r. sortKey r = k) (sortStable rs) = filter (\<lambda>r. sortKey r = k) rs"
  by (simp add: sortStable_def sort_key_stable)

lemma sortStable_sixRemotes:
  "sortStable sixRemotes =
     [remoteOf ''upstream'' ''up'' ''cli'',
      remoteOf ''github'' ''gh'' ''cli'',
      remoteOf ''origin'' ''cli'' ''cli'',
      remoteOf ''fork'' ''me'' ''cli'',
      remoteOf ''mirror'' ''mirror'' ''cli'',
      remoteOf ''backup'' ''backup'' ''cli'']"
  by (simp add: sortStable_def sixRemotes_def sortKey_def remoteOf_def)

lemma sortStable_sevenRemotes:
  "sortStable sevenRemotes =
     [remoteOf ''upstream'' ''up'' ''cli'',
      remoteOf ''github'' ''gh'' ''cli'',
      remoteOf ''origin'' ''cli'' ''cli'',
      remoteOf ''fork'' ''me'' ''cli'',
      remoteOf ''mirror'' ''mirror'' ''cli'',
      remoteOf ''backup'' ''backup'' ''cli'',
      remoteOf ''extra'' ''extra'' ''cli'']"
  by (simp add: sortStable_def sevenRemotes_def sixRemotes_def sortKey_def remoteOf_def)

subsection \<open>The candidate list\<close>

lemma lookupLoop_eq:
  "lookupLoop bo rs (acc, f) =
     (acc @ map IRemote rs, f \<or> (\<exists>r\<in>set rs. IsSame (IRemote r) bo))"
  by (induction rs arbitrary: acc f) auto

lemma lookupRepos_eq:
  "lookupRepos F rs base =
     (if base \<noteq> '''' \<and>
         \<not> (\<exists>r\<in>set (take maxRemotesForLookup (sortStable rs)). IsSame (IRemote r) (IGhRepo (F base)))
      then map IRemote (take maxRemotesForLookup (sortStable rs)) @ [IGhRepo (F base)]
      else map IRemote (take maxRemotesForLookup (sortStable rs)))"
proof -
  have t: "take (if maxRemotesForLookup < length (sortStable rs)
                 then maxRemotesForLookup else length (sortStable rs)) (sortStable rs)
           = take maxRemotesForLookup (sortStable rs)"
    by simp
  show ?thesis
    unfolding lookupRepos_def Let_def t lookupLoop_eq by simp
qed

text \<open>The lookups of the examples keep the contract of the network collaborator.\<close>

lemma sameLength_nullClient: "sameLength nullClient"
  by (auto simp: sameLength_def nullClient_def)

lemma sameLength_failingClient: "sameLength failingClient"
  by (simp add: sameLength_def failingClient_def)

lemma sameLength_echoClient: "sameLength echoClient"
  by (auto simp: sameLength_def echoClient_def)

text \<open>The outcome of \<^verbatim>\<open>ResolveRemotesToRepos\<close> depends on the network only through its
  answer to the candidate list.\<close>

lemma ResolveRemotesToRepos_one_call:
  "ResolveRemotesToRepos F client rs base =
   ResolveRemotesToRepos F (\<lambda>q. client (lookupRepos F rs base)) rs base"
  by (simp add: ResolveRemotesToRepos_def)

lemma lookupRepos_length_le: "length (lookupRepos F rs base) \<le> 6"
  by (auto simp: lookupRepos_eq maxRemotesForLookup_def)

subsection \<open>The scans of the metadata array\<close>

lemma firstRepoLoop_first:
  "i < length reps \<Longrightarrow> reps ! i = Some m \<Longrightarrow> \<forall>j<i. reps ! j = None \<Longrightarrow>
   firstRepoLoop reps = (if IsFork m then Inr (Parent m) else Inr (Some m))"
proof (induction reps arbitrary: i rule: firstRepoLoop.induct)
  case 1
  then show ?case by simp
next
  case (2 rest)
  then obtain k where k: "i = Suc k" by (cases i) auto
  have "\<forall>j<k. rest ! j = None" using 2(4) k by auto
  with 2 k show ?case by simp
next
  case (3 repo rest)
  then have "i = 0" by (cases i) auto
  with 3 show ?case by simp
qed

lemma firstRepoLoop_none:
  "\<forall>x\<in>set reps. x = None \<Longrightarrow> firstRepoLoop reps = Inl NotFound"
  by (induction reps rule: firstRepoLoop.induct) auto

lemma overrideLoop_first:
  "i < length reps \<Longrightarrow> reps ! i = Some m \<Longrightarrow> IsSame (IRepository m) bo \<Longrightarrow>
   \<forall>j<i. \<forall>m'. reps ! j = Some m' \<longrightarrow> \<not> IsSame (IRepository m') bo \<Longrightarrow>
   overrideLoop bo reps = Inr (Some m)"
proof (induction bo reps arbitrary: i rule: overrideLoop.induct)
  case (1 bo)
  then show ?case by simp
next
  case (2 bo rest)
  then obtain k where k: "i = Suc k" by (cases i) auto
  have "\<forall>j<k. \<forall>m'. rest ! j = Some m' \<longrightarrow> \<not> IsSame (IRepository m') bo"
    using 2(5) k by auto
  with 2 k show ?case by simp
next
  case (3 bo repo rest)
  show ?case
  proof (cases i)
    case 0
    with 3 show ?thesis by simp
  next
    case (Suc k)
    have n: "\<not> IsSame (IRepository repo) bo" using 3(5) Suc by auto
    have "\<forall>j<k. \<forall>m'. rest ! j = Some m' \<longrightarrow> \<not> IsSame (IRepository m') bo"
      using 3(5) Suc by auto
    with 3 Suc n show ?thesis by simp
  qed
qed

lemma overrideLoop_none:
  "\<forall>m. Some m \<in> set reps \<longrightarrow> \<not> IsSame (IRepository m) bo \<Longrightarrow>
   overrideLoop bo reps = Inl (RepoNotFound (FullName bo))"
  by (induction bo reps rule: overrideLoop.induct) auto

lemma headLoop_first:
  "i < length reps \<Longrightarrow> reps ! i = Some m \<Longrightarrow> ViewerCanPush m \<Longrightarrow>
   \<forall>j<i. \<forall>m'. reps ! j = Some m' \<longrightarrow> \<not> ViewerCanPush m' \<Longrightarrow>
   headLoop reps = Inr (Some m)"
proof (induction reps arbitrary: i rule: headLoop.induct)
  case 1
  then show ?case by simp
next
  case (2 rest)
  then obtain k where k: "i = Suc k" by (cases i) auto
  have "\<forall>j<k. \<forall>m'. rest ! j = Some m' \<longrightarrow> \<not> ViewerCanPush m'"
    using 2(5) k by auto
  with 2 k show ?case by simp
next
  case (3 repo rest)
  show ?case
  proof (cases i)
    case 0
    with 3 show ?thesis by simp
  next
    case (Suc k)
    have n: "\<not> ViewerCanPush repo" using 3(5) Suc by auto
    have "\<forall>j<k. \<forall>m'. rest ! j = Some m' \<longrightarrow> \<not> ViewerCanPush m'"
      using 3(5) Suc by auto
    with 3 Suc n show ?thesis by simp
  qed
qed

lemma headLoop_none:
  "\<forall>m. Some m \<in> set reps \<longrightarrow> \<not> ViewerCanPush m \<Longrightarrow> headLoop reps = Inl NoPushAccess"
  by (induction reps rule: headLoop.induct) auto

text \<open>\<^verbatim>\<open>BaseRepo\<close> never returns a nil repository with a nil error: a fork has a
  parent.\<close>

lemma firstRepoLoop_not_nil: "firstRepoLoop reps \<noteq> Inr None"
  by (induction reps rule: firstRepoLoop.induct) (auto simp: IsFork_def)

lemma overrideLoop_not_nil: "overrideLoop bo reps \<noteq> Inr None"
  by (induction bo reps rule: overrideLoop.induct) auto

lemma BaseRepo_not_nil: "BaseRepo rr \<noteq> Inr None"
  by (simp add: BaseRepo_def firstRepoLoop_not_nil overrideLoop_not_nil split: option.splits)

lemma fork_has_parent: "IsFork m \<Longrightarrow> \<exists>p. Parent m = Some p"
  by (simp add: IsFork_def)

subsection \<open>The scan of the remotes\<close>

text \<open>When the first match is at position \<open>k\<close> of the remaining remotes and every earlier
  read of the metadata array is in range, the loop returns that remote.\<close>

lemma remoteLoop_first:
  "k < length rs \<Longrightarrow>
   IsSame (IRemote (rs ! k)) repo \<or>
     (i + k < length reps \<and> (\<exists>m. reps ! (i + k) = Some m \<and> IsSame (IRepository m) repo)) \<Longrightarrow>
   \<forall>j<k. \<not> IsSame (IRemote (rs ! j)) repo \<and> i + j < length reps \<and>
          (\<forall>m. reps ! (i + j) = Some m \<longrightarrow> \<not> IsSame (IRepository m) repo) \<Longrightarrow>
   remoteLoop reps repo i rs = Inr (rs ! k)"
proof (induction rs arbitrary: i k)
  case Nil
  then show ?case by simp
next
  case (Cons remote rest)
  show ?case
  proof (cases k)
    case 0
    with Cons.prems(2) show ?thesis by (auto split: option.splits)
  next
    case (Suc k')
    from Cons.prems(3) Suc
    have h0: "\<not> IsSame (IRemote remote) repo" "i < length reps"
             "\<forall>m. reps ! i = Some m \<longrightarrow> \<not> IsSame (IRepository m) repo"
      by force+
    have a: "k' < length rest" using Cons.prems(1) Suc by simp
    have b: "IsSame (IRemote (rest ! k')) repo \<or>
       (Suc i + k' < length reps \<and>
        (\<exists>m. reps ! (Suc i + k') = Some m \<and> IsSame (IRepository m) repo))"
      using Cons.prems(2) Suc by simp
    have c: "\<forall>j<k'. \<not> IsSame (IRemote (rest ! j)) repo \<and> Suc i + j < length reps \<and>
          (\<forall>m. reps ! (Suc i + j) = Some m \<longrightarrow> \<not> IsSame (IRepository m) repo)"
    proof (intro allI impI)
      fix j assume "j < k'"
      then have "Suc j < k" using Suc by simp
      with Cons.prems(3)
      show "\<not> IsSame (IRemote (rest ! j)) repo \<and> Suc i + j < length reps \<and>
          (\<forall>m. reps ! (Suc i + j) = Some m \<longrightarrow> \<not> IsSame (IRepository m) repo)"
        by fastforce
    qed
    have "remoteLoop reps repo (Suc i) rest = Inr (rest ! k')"
      by (rule Cons.IH [OF a b c])
    with h0 Suc show ?thesis by (simp split: option.splits)
  qed
qed

text \<open>A remote that does not match literally, at an index past the end of the metadata
  array, makes the indexing expression panic.\<close>

lemma remoteLoop_panics:
  "rs \<noteq> [] \<Longrightarrow> \<not> IsSame (IRemote (hd rs)) repo \<Longrightarrow> length reps \<le> i \<Longrightarrow>
   remoteLoop reps repo i rs = Inl (IndexOutOfRange i (length reps))"
  by (cases rs) auto

text \<open>When the metadata array is at least as long as the remaining remotes need, the loop
  ends without a panic: with \<open>NotFound\<close> or with one of the remotes.\<close>

lemma remoteLoop_in_range:
  "i + length rs \<le> length reps \<Longrightarrow>
   remoteLoop reps repo i rs = Inl NotFound \<or> (\<exists>r\<in>set rs. remoteLoop reps repo i rs = Inr r)"
proof (induction rs arbitrary: i)
  case Nil
  then show ?case by simp
next
  case (Cons remote rest)
  have "Suc i + length rest \<le> length reps" using Cons.prems by simp
  from Cons.IH [OF this] Cons.prems show ?case
    by (auto split: option.splits)
qed

text \<open>When nothing matches the target and the remotes outnumber the metadata slots, the loop
  reaches the first index past the metadata array and panics there.\<close>

lemma remoteLoop_out_of_range:
  "\<forall>r\<in>set rs. \<not> IsSame (IRemote r) repo \<Longrightarrow>
   \<forall>m. Some m \<in> set reps \<longrightarrow> \<not> IsSame (IRepository m) repo \<Longrightarrow>
   i \<le> length reps \<Longrightarrow> length reps < i + length rs \<Longrightarrow>
   remoteLoop reps repo i rs = Inl (IndexOutOfRange (length reps) (length reps))"
proof (induction rs arbitrary: i)
  case Nil
  then show ?case by simp
next
  case (Cons remote rest)
  show ?case
  proof (cases "i = length reps")
    case True
    with Cons.prems(1) show ?thesis by simp
  next
    case False
    with Cons.prems(3) have lt: "i < length reps" by simp
    then have le: "Suc i \<le> length reps" by simp
    have gt: "length reps < Suc i + length rest" using Cons.prems(4) by simp
    have nr: "\<forall>r\<in>set rest. \<not> IsSame (IRemote r) repo" using Cons.prems(1) by simp
    have ih: "remoteLoop reps repo (Suc i) rest = Inl (IndexOutOfRange (length reps) (length reps))"
      by (rule Cons.IH [OF nr Cons.prems(2) le gt])
    have nm: "\<forall>m. reps ! i = Some m \<longrightarrow> \<not> IsSame (IRepository m) repo"
      using Cons.prems(2) lt nth_mem by metis
    from Cons.prems(1) lt ih nm show ?thesis
      by (simp split: option.splits)
  qed
qed

text \<open>Up to the cap, a successful lookup that keeps the contract gives a metadata array that
  covers every remote, and \<^verbatim>\<open>RemoteForRepo\<close> cannot panic.\<close>

lemma ResolveRemotesToRepos_within_cap:
  assumes "sameLength client" and "length rs \<le> maxRemotesForLookup"
      and "snd (ResolveRemotesToRepos F client rs base) = None"
  shows "RemoteForRepo (fst (ResolveRemotesToRepos F client rs base)) target = Inl NotFound
       \<or> (\<exists>r\<in>set rs. RemoteForRepo (fst (ResolveRemotesToRepos F client rs base)) target = Inr r)"
proof -
  obtain res where res: "client (lookupRepos F rs base) = Inr res"
    using assms(3) by (cases "client (lookupRepos F rs base)")
      (auto simp: ResolveRemotesToRepos_def Let_def)
  have l: "length (Repositories res) = length (lookupRepos F rs base)"
    using assms(1) res unfolding sameLength_def by blast
  have "length rs \<le> length (lookupRepos F rs base)"
    using assms(2) by (simp add: lookupRepos_eq sortStable_length)
  with l have ge: "0 + length (sortStable rs) \<le> length (Repositories res)"
    by (simp add: sortStable_length)
  have e: "RemoteForRepo (fst (ResolveRemotesToRepos F client rs base)) target =
           remoteLoop (Repositories res) target 0 (sortStable rs)"
    using res by (simp add: ResolveRemotesToRepos_def Let_def RemoteForRepo_def)
  have s: "set (sortStable rs) = set rs" by (simp add: sortStable_def)
  show ?thesis
    unfolding e using remoteLoop_in_range [OF ge, of target] s by simp
qed

text \<open>Beyond the cap and with no override, the metadata array has 5 slots for more than 5
  remotes, and \<^verbatim>\<open>RemoteForRepo\<close> panics on every target that nothing matches.\<close>

lemma ResolveRemotesToRepos_beyond_cap:
  assumes "sameLength client" and "maxRemotesForLookup < length rs"
      and "client (lookupRepos F rs '''') = Inr res"
      and "\<forall>r\<in>set rs. \<not> IsSame (IRemote r) target"
      and "\<forall>m. Some m \<in> set (Repositories res) \<longrightarrow> \<not> IsSame (IRepository m) target"
  shows "RemoteForRepo (fst (ResolveRemotesToRepos F client rs '''')) target =
           Inl (IndexOutOfRange 5 5)"
proof -
  have l: "length (Repositories res) = length (lookupRepos F rs '''')"
    using assms(1,3) unfolding sameLength_def by blast
  have "length (lookupRepos F rs '''') = 5"
    using assms(2) by (simp add: lookupRepos_eq sortStable_length maxRemotesForLookup_def)
  with l have n: "length (Repositories res) = 5" by simp
  have e: "RemoteForRepo (fst (ResolveRemotesToRepos F client rs '''')) target =
           remoteLoop (Repositories res) target 0 (sortStable rs)"
    using assms(3) by (simp add: ResolveRemotesToRepos_def Let_def RemoteForRepo_def)
  have s: "\<forall>r\<in>set (sortStable rs). \<not> IsSame (IRemote r) target"
    using assms(4) by (simp add: sortStable_def)
  have gt: "length (Repositories res) < 0 + length (sortStable rs)"
    using assms(2) n by (simp add: sortStable_length maxRemotesForLookup_def)
  show ?thesis
    unfolding e using remoteLoop_out_of_range [OF s assms(5) _ gt] n by simp
qed

text \<open>When the remote at index \<open>i\<close> has an aligned metadata entry that is the same
  repository as the target, every read up to the first match is in range:
  \<^verbatim>\<open>RemoteForRepo\<close> succeeds with the first remote that matches literally or by its
  metadata entry, which is the remote at \<open>i\<close> when none before it matches.\<close>

lemma RemoteForRepo_first_match:
  assumes "i < length (remotes rr)"
      and "i < length (Repositories (network rr))"
      and "Repositories (network rr) ! i = Some m"
      and "IsSame (IRepository m) target"
  shows "((\<forall>k<i. \<not> IsSame (IRemote (remotes rr ! k)) target \<and>
                 (\<forall>m'. Repositories (network rr) ! k = Some m'
                         \<longrightarrow> \<not> IsSame (IRepository m') target))
          \<longrightarrow> RemoteForRepo rr target = Inr (remotes rr ! i))
       \<and> (\<exists>j\<le>i. RemoteForRepo rr target = Inr (remotes rr ! j)
            \<and> (IsSame (IRemote (remotes rr ! j)) target \<or>
               (\<exists>m'. Repositories (network rr) ! j = Some m' \<and> IsSame (IRepository m') target))
            \<and> (\<forall>k<j. \<not> IsSame (IRemote (remotes rr ! k)) target \<and>
                 (\<forall>m'. Repositories (network rr) ! k = Some m'
                         \<longrightarrow> \<not> IsSame (IRepository m') target)))"
proof -
  let ?reps = "Repositories (network rr)"
  let ?P = "\<lambda>j. IsSame (IRemote (remotes rr ! j)) target \<or>
               (\<exists>m'. ?reps ! j = Some m' \<and> IsSame (IRepository m') target)"
  have first: "RemoteForRepo rr target = Inr (remotes rr ! j)"
    if j: "j \<le> i" "?P j" "\<forall>k<j. \<not> ?P k" for j
  proof -
    have a: "j < length (remotes rr)" using j(1) assms(1) by simp
    have jr: "j < length ?reps" using j(1) assms(2) by simp
    have b: "IsSame (IRemote (remotes rr ! j)) target \<or>
       (0 + j < length ?reps \<and>
        (\<exists>m. ?reps ! (0 + j) = Some m \<and> IsSame (IRepository m) target))"
      using j(2) jr by simp
    have c: "\<forall>k<j. \<not> IsSame (IRemote (remotes rr ! k)) target \<and> 0 + k < length ?reps \<and>
          (\<forall>m. ?reps ! (0 + k) = Some m \<longrightarrow> \<not> IsSame (IRepository m) target)"
      using j(3) jr by auto
    show ?thesis
      unfolding RemoteForRepo_def by (rule remoteLoop_first [OF a b c])
  qed
  have Pi: "?P i" using assms(3,4) by simp
  define j where "j = (LEAST j. ?P j)"
  have Pj: "?P j" unfolding j_def using Pi by (rule LeastI)
  have le: "j \<le> i" unfolding j_def using Pi by (rule Least_le)
  have least: "\<forall>k<j. \<not> ?P k" unfolding j_def using not_less_Least by blast
  have one: "(\<forall>k<i. \<not> ?P k) \<longrightarrow> RemoteForRepo rr target = Inr (remotes rr ! i)"
    using first [of i] Pi by simp
  have two: "\<exists>j\<le>i. RemoteForRepo rr target = Inr (remotes rr ! j) \<and> ?P j \<and> (\<forall>k<j. \<not> ?P k)"
    using first [OF le Pj least] le Pj least by blast
  from one two show ?thesis by blast
qed

text \<open>A remote that literally points to \<^verbatim>\<open>old/name\<close>, with the aligned metadata
  \<^verbatim>\<open>new/name\<close>, is found for the target \<^verbatim>\<open>new/name\<close>.\<close>

lemma RemoteForRepo_first_match_example:
  "RemoteForRepo
     \<lparr>baseOverride = None,
      remotes = [remoteOf ''upstream'' ''other'' ''repo'', remoteOf ''origin'' ''old'' ''name''],
      network = \<lparr>Repositories = [None, Some (Repository ''new'' ''name'' None True)]\<rparr>\<rparr>
     (IGhRepo \<lparr>ghOwner = ''new'', ghName = ''name''\<rparr>)
   = Inr (remoteOf ''origin'' ''old'' ''name'')"
proof -
  let ?tg = "IGhRepo \<lparr>ghOwner = ''new'', ghName = ''name''\<rparr>"
  let ?m = "Repository ''new'' ''name'' None True"
  let ?rr = "\<lparr>baseOverride = None,
      remotes = [remoteOf ''upstream'' ''other'' ''repo'', remoteOf ''origin'' ''old'' ''name''],
      network = \<lparr>Repositories = [None, Some ?m]\<rparr>\<rparr>"
  have h1: "1 < length (remotes ?rr)" by simp
  have h2: "1 < length (Repositories (network ?rr))" by simp
  have h3: "Repositories (network ?rr) ! 1 = Some ?m" by simp
  have h4: "IsSame (IRepository ?m) ?tg" by (rule IsSame_identity) simp_all
  have n0: "\<not> IsSame (IRemote (remoteOf ''upstream'' ''other'' ''repo'')) ?tg"
    by (simp add: IsSame_def EqualFold_def toLower_def remoteOf_def)
  have pre: "\<forall>k<1. \<not> IsSame (IRemote (remotes ?rr ! k)) ?tg \<and>
                 (\<forall>m'. Repositories (network ?rr) ! k = Some m'
                         \<longrightarrow> \<not> IsSame (IRepository m') ?tg)"
    using n0 by simp
  have "RemoteForRepo ?rr ?tg = Inr (remotes ?rr ! 1)"
    using RemoteForRepo_first_match [OF h1 h2 h3 h4, THEN conjunct1, THEN mp, OF pre] .
  then show ?thesis by simp
qed

section \<open>The claims\<close>

text \<open>
  C1. The claim: for every Resolved Remote Set built by \<^verbatim>\<open>ResolveRemotesToRepos\<close>, also
  from more than 5 remotes, \<^verbatim>\<open>RemoteForRepo(target)\<close> returns a matching remote or fails
  with \<open>NotFound\<close>, and never reads the metadata array out of range. The code at six
  remotes, no override, a lookup that succeeds with one (null) slot per candidate and a
  target that no remote points to: the lookup returns no error, the result holds 6 remotes
  and 5 metadata slots, and \<^verbatim>\<open>RemoteForRepo\<close> panics with index 5 out of range for
  length 5.
\<close>

theorem RemoteForRepo_panics_beyond_cap:
  "snd (ResolveRemotesToRepos splitFullName nullClient sixRemotes '''') = None
   \<and> length (remotes (fst (ResolveRemotesToRepos splitFullName nullClient sixRemotes ''''))) = 6
   \<and> length (Repositories (network
        (fst (ResolveRemotesToRepos splitFullName nullClient sixRemotes '''')))) = 5
   \<and> RemoteForRepo (fst (ResolveRemotesToRepos splitFullName nullClient sixRemotes ''''))
        (IGhRepo \<lparr>ghOwner = ''nobody'', ghName = ''nothing''\<rparr>) = Inl (IndexOutOfRange 5 5)"
  by (simp add: ResolveRemotesToRepos_def lookupRepos_eq sortStable_sixRemotes
      maxRemotesForLookup_def nullClient_def RemoteForRepo_def remoteOf_def IsSame_def
      EqualFold_def toLower_def)

text \<open>
  C2. For a Remote Set of more than 5 remotes and no override (the empty string),
  \<^verbatim>\<open>ResolveRemotesToRepos\<close> hands to the lookup the first 5 remotes of the stably sorted
  set, in that order, exactly 5 entries: for every lookup, what it returns is what the lookup
  answers to that list (the error with an empty metadata array, or the metadata array),
  beside the sorted Remote Set. The sorted set is ordered by the sort key, is a
  rearrangement of the given remotes and keeps the given order among remotes of equal key.
\<close>

theorem cap_invariant:
  assumes "length rs > 5"
  shows "ResolveRemotesToRepos F client rs '''' =
           (case client (map IRemote (take 5 (sortStable rs))) of
              Inl err \<Rightarrow>
                (\<lparr>baseOverride = None, remotes = sortStable rs,
                  network = \<lparr>Repositories = []\<rparr>\<rparr>, Some err)
            | Inr networkResult \<Rightarrow>
                (\<lparr>baseOverride = None, remotes = sortStable rs,
                  network = networkResult\<rparr>, None))
       \<and> length (map IRemote (take 5 (sortStable rs))) = 5
       \<and> lookupRepos F rs '''' = map IRemote (take 5 (sortStable rs))
       \<and> length (lookupRepos F rs '''') = 5
       \<and> sorted (map sortKey (sortStable rs))
       \<and> mset (sortStable rs) = mset rs
       \<and> (\<forall>k. filter (\<lambda>r. sortKey r = k) (sortStable rs) = filter (\<lambda>r. sortKey r = k) rs)"
proof -
  have e: "lookupRepos F rs '''' = map IRemote (take 5 (sortStable rs))"
    by (simp add: lookupRepos_eq maxRemotesForLookup_def)
  have n: "length (lookupRepos F rs '''') = 5"
    using assms by (simp add: e sortStable_length)
  have n': "length (map IRemote (take 5 (sortStable rs))) = 5"
    using n e by simp
  have r: "ResolveRemotesToRepos F client rs '''' =
           (case client (map IRemote (take 5 (sortStable rs))) of
              Inl err \<Rightarrow>
                (\<lparr>baseOverride = None, remotes = sortStable rs,
                  network = \<lparr>Repositories = []\<rparr>\<rparr>, Some err)
            | Inr networkResult \<Rightarrow>
                (\<lparr>baseOverride = None, remotes = sortStable rs,
                  network = networkResult\<rparr>, None))"
    by (simp add: ResolveRemotesToRepos_def Let_def e emptyNetworkResult_def split: sum.splits)
  show ?thesis
    using r n' e n sortStable_sorted sortStable_mset sortStable_stable by blast
qed

theorem cap_invariant_witness:
  "length sixRemotes > 5
   \<and> ResolveRemotesToRepos splitFullName echoClient sixRemotes '''' =
       (\<lparr>baseOverride = None,
         remotes = sortStable sixRemotes,
         network = \<lparr>Repositories =
           [Some (Repository ''up'' ''cli'' None True),
            Some (Repository ''gh'' ''cli'' None True),
            Some (Repository ''cli'' ''cli'' None True),
            Some (Repository ''me'' ''cli'' None True),
            Some (Repository ''mirror'' ''cli'' None True)]\<rparr>\<rparr>, None)
   \<and> lookupRepos splitFullName sixRemotes '''' =
       [IRemote (remoteOf ''upstream'' ''up'' ''cli''),
        IRemote (remoteOf ''github'' ''gh'' ''cli''),
        IRemote (remoteOf ''origin'' ''cli'' ''cli''),
        IRemote (remoteOf ''fork'' ''me'' ''cli''),
        IRemote (remoteOf ''mirror'' ''mirror'' ''cli'')]"
proof -
  have h: "length sixRemotes > 5" by (simp add: sixRemotes_def)
  have c: "take 5 (sortStable sixRemotes) =
       [remoteOf ''upstream'' ''up'' ''cli'',
        remoteOf ''github'' ''gh'' ''cli'',
        remoteOf ''origin'' ''cli'' ''cli'',
        remoteOf ''fork'' ''me'' ''cli'',
        remoteOf ''mirror'' ''mirror'' ''cli'']"
    by (simp add: sortStable_sixRemotes)
  have q: "echoClient (map IRemote (take 5 (sortStable sixRemotes))) =
       Inr \<lparr>Repositories =
           [Some (Repository ''up'' ''cli'' None True),
            Some (Repository ''gh'' ''cli'' None True),
            Some (Repository ''cli'' ''cli'' None True),
            Some (Repository ''me'' ''cli'' None True),
            Some (Repository ''mirror'' ''cli'' None True)]\<rparr>"
    unfolding c by (simp add: echoClient_def remoteOf_def)
  show ?thesis
    using h cap_invariant [OF h, of splitFullName echoClient] unfolding q
    by (simp add: c)
qed

text \<open>
  C3. For every Remote Set and every non-empty override string: when the override is the
  same repository (\<^verbatim>\<open>IsSame\<close>) as none of the capped top remotes,
  \<^verbatim>\<open>ResolveRemotesToRepos\<close> hands to the lookup the capped remote list followed by the
  override, one entry more; when it is the same as some capped remote, it hands over the
  capped remote list. In both cases what it returns is what the lookup answers to that
  list, beside the sorted Remote Set and the override.
\<close>

theorem override_inclusion:
  assumes "base \<noteq> ''''"
  shows "((\<forall>r\<in>set (take maxRemotesForLookup (sortStable rs)).
              \<not> IsSame (IRemote r) (IGhRepo (F base)))
            \<longrightarrow> ResolveRemotesToRepos F client rs base =
                  (case client (map IRemote (take maxRemotesForLookup (sortStable rs))
                                @ [IGhRepo (F base)]) of
                     Inl err \<Rightarrow>
                       (\<lparr>baseOverride = Some (IGhRepo (F base)), remotes = sortStable rs,
                         network = \<lparr>Repositories = []\<rparr>\<rparr>, Some err)
                   | Inr networkResult \<Rightarrow>
                       (\<lparr>baseOverride = Some (IGhRepo (F base)), remotes = sortStable rs,
                         network = networkResult\<rparr>, None))
                \<and> lookupRepos F rs base =
                  map IRemote (take maxRemotesForLookup (sortStable rs)) @ [IGhRepo (F base)]
                \<and> length (lookupRepos F rs base) =
                  Suc (length (take maxRemotesForLookup (sortStable rs))))
       \<and> ((\<exists>r\<in>set (take maxRemotesForLookup (sortStable rs)).
              IsSame (IRemote r) (IGhRepo (F base)))
            \<longrightarrow> ResolveRemotesToRepos F client rs base =
                  (case client (map IRemote (take maxRemotesForLookup (sortStable rs))) of
                     Inl err \<Rightarrow>
                       (\<lparr>baseOverride = Some (IGhRepo (F base)), remotes = sortStable rs,
                         network = \<lparr>Repositories = []\<rparr>\<rparr>, Some err)
                   | Inr networkResult \<Rightarrow>
                       (\<lparr>baseOverride = Some (IGhRepo (F base)), remotes = sortStable rs,
                         network = networkResult\<rparr>, None))
                \<and> lookupRepos F rs base = map IRemote (take maxRemotesForLookup (sortStable rs)))"
proof -
  let ?capped = "take maxRemotesForLookup (sortStable rs)"
  have r: "ResolveRemotesToRepos F client rs base =
         (case client (lookupRepos F rs base) of
            Inl err \<Rightarrow>
              (\<lparr>baseOverride = Some (IGhRepo (F base)), remotes = sortStable rs,
                network = \<lparr>Repositories = []\<rparr>\<rparr>, Some err)
          | Inr networkResult \<Rightarrow>
              (\<lparr>baseOverride = Some (IGhRepo (F base)), remotes = sortStable rs,
                network = networkResult\<rparr>, None))"
    using assms
    by (simp add: ResolveRemotesToRepos_def Let_def emptyNetworkResult_def split: sum.splits)
  have a: "lookupRepos F rs base = map IRemote ?capped @ [IGhRepo (F base)]"
    if "\<forall>r\<in>set ?capped. \<not> IsSame (IRemote r) (IGhRepo (F base))"
    using assms that by (simp add: lookupRepos_eq)
  have b: "lookupRepos F rs base = map IRemote ?capped"
    if "\<exists>r\<in>set ?capped. IsSame (IRemote r) (IGhRepo (F base))"
    using assms that by (simp add: lookupRepos_eq)
  show ?thesis
  proof (intro conjI impI)
    assume h: "\<forall>r\<in>set ?capped. \<not> IsSame (IRemote r) (IGhRepo (F base))"
    show "ResolveRemotesToRepos F client rs base =
                  (case client (map IRemote ?capped @ [IGhRepo (F base)]) of
                     Inl err \<Rightarrow>
                       (\<lparr>baseOverride = Some (IGhRepo (F base)), remotes = sortStable rs,
                         network = \<lparr>Repositories = []\<rparr>\<rparr>, Some err)
                   | Inr networkResult \<Rightarrow>
                       (\<lparr>baseOverride = Some (IGhRepo (F base)), remotes = sortStable rs,
                         network = networkResult\<rparr>, None))"
      using r a [OF h] by simp
    show "lookupRepos F rs base = map IRemote ?capped @ [IGhRepo (F base)]"
      by (rule a [OF h])
    show "length (lookupRepos F rs base) = Suc (length ?capped)"
      using a [OF h] by simp
  next
    assume h: "\<exists>r\<in>set ?capped. IsSame (IRemote r) (IGhRepo (F base))"
    show "ResolveRemotesToRepos F client rs base =
                  (case client (map IRemote ?capped) of
                     Inl err \<Rightarrow>
                       (\<lparr>baseOverride = Some (IGhRepo (F base)), remotes = sortStable rs,
                         network = \<lparr>Repositories = []\<rparr>\<rparr>, Some err)
                   | Inr networkResult \<Rightarrow>
                       (\<lparr>baseOverride = Some (IGhRepo (F base)), remotes = sortStable rs,
                         network = networkResult\<rparr>, None))"
      using r b [OF h] by simp
    show "lookupRepos F rs base = map IRemote ?capped"
      by (rule b [OF h])
  qed
qed

theorem override_inclusion_witness:
  "''other/repo'' \<noteq> ''''
   \<and> ResolveRemotesToRepos splitFullName echoClient sixRemotes ''other/repo'' =
       (\<lparr>baseOverride = Some (IGhRepo \<lparr>ghOwner = ''other'', ghName = ''repo''\<rparr>),
         remotes = sortStable sixRemotes,
         network = \<lparr>Repositories =
           [Some (Repository ''up'' ''cli'' None True),
            Some (Repository ''gh'' ''cli'' None True),
            Some (Repository ''cli'' ''cli'' None True),
            Some (Repository ''me'' ''cli'' None True),
            Some (Repository ''mirror'' ''cli'' None True),
            Some (Repository ''other'' ''repo'' None True)]\<rparr>\<rparr>, None)
   \<and> ResolveRemotesToRepos splitFullName echoClient sixRemotes ''GH/Cli'' =
       (\<lparr>baseOverride = Some (IGhRepo \<lparr>ghOwner = ''GH'', ghName = ''Cli''\<rparr>),
         remotes = sortStable sixRemotes,
         network = \<lparr>Repositories =
           [Some (Repository ''up'' ''cli'' None True),
            Some (Repository ''gh'' ''cli'' None True),
            Some (Repository ''cli'' ''cli'' None True),
            Some (Repository ''me'' ''cli'' None True),
            Some (Repository ''mirror'' ''cli'' None True)]\<rparr>\<rparr>, None)"
proof -
  have h1: "''other/repo'' \<noteq> ''''" by simp
  have h2: "''GH/Cli'' \<noteq> ''''" by simp
  have c: "take maxRemotesForLookup (sortStable sixRemotes) =
       [remoteOf ''upstream'' ''up'' ''cli'',
        remoteOf ''github'' ''gh'' ''cli'',
        remoteOf ''origin'' ''cli'' ''cli'',
        remoteOf ''fork'' ''me'' ''cli'',
        remoteOf ''mirror'' ''mirror'' ''cli'']"
    by (simp add: sortStable_sixRemotes maxRemotesForLookup_def)
  have p1: "splitFullName ''other/repo'' = \<lparr>ghOwner = ''other'', ghName = ''repo''\<rparr>"
    by (simp add: splitFullName_def)
  have p2: "splitFullName ''GH/Cli'' = \<lparr>ghOwner = ''GH'', ghName = ''Cli''\<rparr>"
    by (simp add: splitFullName_def)
  have n1: "\<forall>r\<in>set (take maxRemotesForLookup (sortStable sixRemotes)).
              \<not> IsSame (IRemote r) (IGhRepo (splitFullName ''other/repo''))"
    unfolding c p1 by (simp add: remoteOf_def IsSame_def EqualFold_def toLower_def)
  have n2: "\<exists>r\<in>set (take maxRemotesForLookup (sortStable sixRemotes)).
              IsSame (IRemote r) (IGhRepo (splitFullName ''GH/Cli''))"
    unfolding c p2 by (simp add: remoteOf_def IsSame_def EqualFold_def toLower_def)
  have a: "ResolveRemotesToRepos splitFullName echoClient sixRemotes ''other/repo'' =
       (\<lparr>baseOverride = Some (IGhRepo \<lparr>ghOwner = ''other'', ghName = ''repo''\<rparr>),
         remotes = sortStable sixRemotes,
         network = \<lparr>Repositories =
           [Some (Repository ''up'' ''cli'' None True),
            Some (Repository ''gh'' ''cli'' None True),
            Some (Repository ''cli'' ''cli'' None True),
            Some (Repository ''me'' ''cli'' None True),
            Some (Repository ''mirror'' ''cli'' None True),
            Some (Repository ''other'' ''repo'' None True)]\<rparr>\<rparr>, None)"
    using override_inclusion [OF h1, of sixRemotes splitFullName echoClient,
            THEN conjunct1, THEN mp, OF n1, THEN conjunct1]
    unfolding c p1 by (simp add: echoClient_def remoteOf_def)
  have b: "ResolveRemotesToRepos splitFullName echoClient sixRemotes ''GH/Cli'' =
       (\<lparr>baseOverride = Some (IGhRepo \<lparr>ghOwner = ''GH'', ghName = ''Cli''\<rparr>),
         remotes = sortStable sixRemotes,
         network = \<lparr>Repositories =
           [Some (Repository ''up'' ''cli'' None True),
            Some (Repository ''gh'' ''cli'' None True),
            Some (Repository ''cli'' ''cli'' None True),
            Some (Repository ''me'' ''cli'' None True),
            Some (Repository ''mirror'' ''cli'' None True)]\<rparr>\<rparr>, None)"
    using override_inclusion [OF h2, of sixRemotes splitFullName echoClient,
            THEN conjunct2, THEN mp, OF n2, THEN conjunct1]
    unfolding c p2 by (simp add: echoClient_def remoteOf_def)
  from h1 a b show ?thesis by simp
qed

text \<open>
  C4. With no override, let the first non-null entry of the metadata array be \<open>m\<close>, at
  index \<open>i\<close>. If \<open>m\<close> is a fork with the non-null parent \<open>p\<close>, \<^verbatim>\<open>BaseRepo()\<close> returns
  \<open>p\<close>, which is not \<open>m\<close>; if \<open>m\<close> is no fork, \<^verbatim>\<open>BaseRepo()\<close> returns \<open>m\<close>.
\<close>

theorem BaseRepo_fork_rule:
  assumes "baseOverride rr = None"
      and "i < length (Repositories (network rr))"
      and "Repositories (network rr) ! i = Some m"
      and "\<forall>j<i. Repositories (network rr) ! j = None"
  shows "(IsFork m \<and> Parent m = Some p
            \<longrightarrow> BaseRepo rr = Inr (Some p) \<and> BaseRepo rr \<noteq> Inr (Some m))
       \<and> (\<not> IsFork m \<longrightarrow> BaseRepo rr = Inr (Some m))"
proof -
  have "BaseRepo rr = (if IsFork m then Inr (Parent m) else Inr (Some m))"
    using assms(1) firstRepoLoop_first [OF assms(2,3,4)] by (simp add: BaseRepo_def)
  then show ?thesis using Parent_neq [of m p] by auto
qed

theorem BaseRepo_fork_rule_witness:
  "BaseRepo \<lparr>baseOverride = None, remotes = [remoteOf ''origin'' ''me'' ''cli''],
             network = \<lparr>Repositories =
               [None, Some (Repository ''me'' ''cli''
                        (Some (Repository ''cli'' ''cli'' None False)) True)]\<rparr>\<rparr>
     = Inr (Some (Repository ''cli'' ''cli'' None False))
   \<and> BaseRepo \<lparr>baseOverride = None, remotes = [remoteOf ''origin'' ''cli'' ''cli''],
             network = \<lparr>Repositories =
               [None, Some (Repository ''cli'' ''cli'' None False)]\<rparr>\<rparr>
     = Inr (Some (Repository ''cli'' ''cli'' None False))"
  using BaseRepo_fork_rule
          [of "\<lparr>baseOverride = None, remotes = [remoteOf ''origin'' ''me'' ''cli''],
                network = \<lparr>Repositories =
                  [None, Some (Repository ''me'' ''cli''
                           (Some (Repository ''cli'' ''cli'' None False)) True)]\<rparr>\<rparr>"
              1
              "Repository ''me'' ''cli'' (Some (Repository ''cli'' ''cli'' None False))
                 True"
              "Repository ''cli'' ''cli'' None False"]
        BaseRepo_fork_rule
          [of "\<lparr>baseOverride = None, remotes = [remoteOf ''origin'' ''cli'' ''cli''],
                network = \<lparr>Repositories =
                  [None, Some (Repository ''cli'' ''cli'' None False)]\<rparr>\<rparr>"
              1
              "Repository ''cli'' ''cli'' None False"]
  by (simp add: IsFork_def)

text \<open>
  C5. With the override \<open>bo\<close>: \<^verbatim>\<open>BaseRepo()\<close> returns the first non-null metadata entry
  that is the same repository as the override (\<^verbatim>\<open>IsSame\<close>, case-insensitive), the entry
  itself whether or not it is a fork; when no non-null entry is the same as the override it
  fails with \<open>RepoNotFound\<close> carrying the full name of the override.
\<close>

theorem BaseRepo_override:
  assumes "baseOverride rr = Some bo"
  shows "(\<forall>i m. i < length (Repositories (network rr))
              \<and> Repositories (network rr) ! i = Some m \<and> IsSame (IRepository m) bo
              \<and> (\<forall>j<i. \<forall>m'. Repositories (network rr) ! j = Some m'
                           \<longrightarrow> \<not> IsSame (IRepository m') bo)
            \<longrightarrow> BaseRepo rr = Inr (Some m))
       \<and> ((\<forall>m. Some m \<in> set (Repositories (network rr)) \<longrightarrow> \<not> IsSame (IRepository m) bo)
            \<longrightarrow> BaseRepo rr = Inl (RepoNotFound (FullName bo)))"
proof -
  have b: "BaseRepo rr = overrideLoop bo (Repositories (network rr))"
    using assms by (simp add: BaseRepo_def)
  have one: "\<forall>i m. i < length (Repositories (network rr))
              \<and> Repositories (network rr) ! i = Some m \<and> IsSame (IRepository m) bo
              \<and> (\<forall>j<i. \<forall>m'. Repositories (network rr) ! j = Some m'
                           \<longrightarrow> \<not> IsSame (IRepository m') bo)
            \<longrightarrow> BaseRepo rr = Inr (Some m)"
    unfolding b using overrideLoop_first by blast
  have two: "(\<forall>m. Some m \<in> set (Repositories (network rr)) \<longrightarrow> \<not> IsSame (IRepository m) bo)
            \<longrightarrow> BaseRepo rr = Inl (RepoNotFound (FullName bo))"
    unfolding b using overrideLoop_none by blast
  from one two show ?thesis by blast
qed

theorem BaseRepo_override_witness:
  "BaseRepo \<lparr>baseOverride = Some (IGhRepo \<lparr>ghOwner = ''me'', ghName = ''cli''\<rparr>),
             remotes = [remoteOf ''origin'' ''cli'' ''cli''],
             network = \<lparr>Repositories =
               [Some (Repository ''cli'' ''cli'' None False), None,
                Some (Repository ''Me'' ''CLI''
                        (Some (Repository ''cli'' ''cli'' None False)) True)]\<rparr>\<rparr>
     = Inr (Some (Repository ''Me'' ''CLI''
                    (Some (Repository ''cli'' ''cli'' None False)) True))
   \<and> BaseRepo \<lparr>baseOverride = Some (IGhRepo \<lparr>ghOwner = ''me'', ghName = ''cli''\<rparr>),
             remotes = [remoteOf ''origin'' ''cli'' ''cli''],
             network = \<lparr>Repositories =
               [Some (Repository ''cli'' ''cli'' None False), None]\<rparr>\<rparr>
     = Inl (RepoNotFound ''me/cli'')"
proof -
  let ?bo = "IGhRepo \<lparr>ghOwner = ''me'', ghName = ''cli''\<rparr>"
  let ?up = "Repository ''cli'' ''cli'' None False"
  let ?fk = "Repository ''Me'' ''CLI'' (Some ?up) True"
  let ?r1 = "\<lparr>baseOverride = Some ?bo, remotes = [remoteOf ''origin'' ''cli'' ''cli''],
              network = \<lparr>Repositories = [Some ?up, None, Some ?fk]\<rparr>\<rparr>"
  let ?r2 = "\<lparr>baseOverride = Some ?bo, remotes = [remoteOf ''origin'' ''cli'' ''cli''],
              network = \<lparr>Repositories = [Some ?up, None]\<rparr>\<rparr>"
  have s1: "IsSame (IRepository ?fk) ?bo"
    by (simp add: IsSame_def EqualFold_def toLower_def)
  have s2: "\<not> IsSame (IRepository ?up) ?bo"
    by (simp add: IsSame_def EqualFold_def toLower_def)
  have lt: "\<forall>j<2. \<forall>m'. [Some ?up, None, Some ?fk] ! j = Some m' \<longrightarrow> \<not> IsSame (IRepository m') ?bo"
  proof (intro allI impI)
    fix j :: nat and m'
    assume "j < 2" and e: "[Some ?up, None, Some ?fk] ! j = Some m'"
    then have "j = 0 \<or> j = 1" by auto
    with e have "m' = ?up" by auto
    with s2 show "\<not> IsSame (IRepository m') ?bo" by simp
  qed
  have ov: "baseOverride ?r1 = Some ?bo" by simp
  have pre: "2 < length (Repositories (network ?r1))
      \<and> Repositories (network ?r1) ! 2 = Some ?fk \<and> IsSame (IRepository ?fk) ?bo
      \<and> (\<forall>j<2. \<forall>m'. Repositories (network ?r1) ! j = Some m'
                   \<longrightarrow> \<not> IsSame (IRepository m') ?bo)"
    using s1 lt by simp
  have a: "BaseRepo ?r1 = Inr (Some ?fk)"
    using BaseRepo_override [OF ov, THEN conjunct1, THEN spec, THEN spec, THEN mp, OF pre] .
  have b: "BaseRepo ?r2 = Inl (RepoNotFound ''me/cli'')"
    using BaseRepo_override [of ?r2 ?bo] s2 by (simp add: FullName_def)
  from a b show ?thesis by simp
qed

text \<open>
  C6. \<^verbatim>\<open>HeadRepo()\<close> returns the first metadata entry, in candidate order, that is
  non-null and grants push access, and fails with \<open>NoPushAccess\<close> when no non-null entry
  grants it. For the candidates A (no push access), B and C (push access) it returns B.
\<close>

theorem HeadRepo_first_push:
  "(\<forall>i m. i < length (Repositories (network rr))
              \<and> Repositories (network rr) ! i = Some m \<and> ViewerCanPush m
              \<and> (\<forall>j<i. \<forall>m'. Repositories (network rr) ! j = Some m' \<longrightarrow> \<not> ViewerCanPush m')
            \<longrightarrow> HeadRepo rr = Inr (Some m))
   \<and> ((\<forall>m. Some m \<in> set (Repositories (network rr)) \<longrightarrow> \<not> ViewerCanPush m)
            \<longrightarrow> HeadRepo rr = Inl NoPushAccess)
   \<and> (Repositories (network rr) = [Some A, Some B, Some C]
        \<and> \<not> ViewerCanPush A \<and> ViewerCanPush B \<and> ViewerCanPush C
            \<longrightarrow> HeadRepo rr = Inr (Some B))"
proof -
  have one: "\<forall>i m. i < length (Repositories (network rr))
              \<and> Repositories (network rr) ! i = Some m \<and> ViewerCanPush m
              \<and> (\<forall>j<i. \<forall>m'. Repositories (network rr) ! j = Some m' \<longrightarrow> \<not> ViewerCanPush m')
            \<longrightarrow> HeadRepo rr = Inr (Some m)"
    unfolding HeadRepo_def using headLoop_first by blast
  have two: "(\<forall>m. Some m \<in> set (Repositories (network rr)) \<longrightarrow> \<not> ViewerCanPush m)
            \<longrightarrow> HeadRepo rr = Inl NoPushAccess"
    unfolding HeadRepo_def using headLoop_none by blast
  have three: "Repositories (network rr) = [Some A, Some B, Some C]
        \<and> \<not> ViewerCanPush A \<and> ViewerCanPush B \<and> ViewerCanPush C
            \<longrightarrow> HeadRepo rr = Inr (Some B)"
    by (simp add: HeadRepo_def)
  from one two three show ?thesis by blast
qed

theorem HeadRepo_first_push_witness:
  "HeadRepo \<lparr>baseOverride = None, remotes = [],
             network = \<lparr>Repositories =
               [Some (Repository ''a'' ''cli'' None False),
                Some (Repository ''b'' ''cli'' None True),
                Some (Repository ''c'' ''cli'' None True)]\<rparr>\<rparr>
     = Inr (Some (Repository ''b'' ''cli'' None True))
   \<and> HeadRepo \<lparr>baseOverride = None, remotes = [],
             network = \<lparr>Repositories =
               [Some (Repository ''a'' ''cli'' None False), None]\<rparr>\<rparr>
     = Inl NoPushAccess"
  using HeadRepo_first_push
          [of "\<lparr>baseOverride = None, remotes = [],
                network = \<lparr>Repositories =
                  [Some (Repository ''a'' ''cli'' None False),
                   Some (Repository ''b'' ''cli'' None True),
                   Some (Repository ''c'' ''cli'' None True)]\<rparr>\<rparr>"
              "Repository ''a'' ''cli'' None False"
              "Repository ''b'' ''cli'' None True"
              "Repository ''c'' ''cli'' None True"]
        HeadRepo_first_push
          [of "\<lparr>baseOverride = None, remotes = [],
                network = \<lparr>Repositories =
                  [Some (Repository ''a'' ''cli'' None False), None]\<rparr>\<rparr>"]
  by simp

text \<open>
  C7. The claim: \<^verbatim>\<open>RemoteForRepo\<close> returns the first remote, in stored order, that
  matches the target by its own literal identity or by its aligned metadata entry. The code
  at seven remotes, no override, a lookup that succeeds with one (null) slot per candidate,
  and the target \<^verbatim>\<open>extra/cli\<close>: the result holds 7 remotes and 5 metadata slots, the one
  remote that is the same repository as the target is the last one, at index 6, and
  \<^verbatim>\<open>RemoteForRepo\<close> does not return it: at the remote of index 5, which does not match
  literally, it reads the metadata array at index 5 and panics.
\<close>

theorem RemoteForRepo_literal_match_beyond_cap:
  "snd (ResolveRemotesToRepos splitFullName nullClient sevenRemotes '''') = None
   \<and> remotes (fst (ResolveRemotesToRepos splitFullName nullClient sevenRemotes '''')) =
       [remoteOf ''upstream'' ''up'' ''cli'',
        remoteOf ''github'' ''gh'' ''cli'',
        remoteOf ''origin'' ''cli'' ''cli'',
        remoteOf ''fork'' ''me'' ''cli'',
        remoteOf ''mirror'' ''mirror'' ''cli'',
        remoteOf ''backup'' ''backup'' ''cli'',
        remoteOf ''extra'' ''extra'' ''cli'']
   \<and> Repositories (network
        (fst (ResolveRemotesToRepos splitFullName nullClient sevenRemotes ''''))) =
       [None, None, None, None, None]
   \<and> filter (\<lambda>r. IsSame (IRemote r) (IGhRepo \<lparr>ghOwner = ''extra'', ghName = ''cli''\<rparr>))
        (remotes (fst (ResolveRemotesToRepos splitFullName nullClient sevenRemotes ''''))) =
       [remoteOf ''extra'' ''extra'' ''cli'']
   \<and> RemoteForRepo (fst (ResolveRemotesToRepos splitFullName nullClient sevenRemotes ''''))
        (IGhRepo \<lparr>ghOwner = ''extra'', ghName = ''cli''\<rparr>) = Inl (IndexOutOfRange 5 5)"
  by (simp add: ResolveRemotesToRepos_def lookupRepos_eq sortStable_sevenRemotes
      maxRemotesForLookup_def nullClient_def RemoteForRepo_def remoteOf_def IsSame_def
      EqualFold_def toLower_def)

text \<open>
  C8, as the code has it. For the Resolved Remote Set built from an empty Remote Set with no
  override, by a lookup that fails or that returns one slot per candidate:
  \<^verbatim>\<open>BaseRepo()\<close> fails with \<open>NotFound\<close>, \<^verbatim>\<open>HeadRepo()\<close> fails with \<open>NoPushAccess\<close>
  (the error "none of the repositories have push access"), and \<^verbatim>\<open>RemoteForRepo(target)\<close>
  fails with \<open>NotFound\<close> for every target.
\<close>

theorem empty_set_queries:
  assumes "sameLength client"
  shows "BaseRepo (fst (ResolveRemotesToRepos F client [] '''')) = Inl NotFound
       \<and> HeadRepo (fst (ResolveRemotesToRepos F client [] '''')) = Inl NoPushAccess
       \<and> (\<forall>target. RemoteForRepo (fst (ResolveRemotesToRepos F client [] '''')) target
                     = Inl NotFound)"
proof -
  have q: "lookupRepos F [] '''' = []"
    by (simp add: lookupRepos_eq sortStable_def)
  have n: "Repositories (network (fst (ResolveRemotesToRepos F client [] ''''))) = []"
  proof (cases "client []")
    case (Inl e)
    then show ?thesis
      by (simp add: ResolveRemotesToRepos_def Let_def q emptyNetworkResult_def)
  next
    case (Inr res)
    with assms have "length (Repositories res) = length ([] :: Interface list)"
      unfolding sameLength_def by blast
    with Inr show ?thesis
      by (simp add: ResolveRemotesToRepos_def Let_def q)
  qed
  have o: "baseOverride (fst (ResolveRemotesToRepos F client [] '''')) = None"
    by (simp add: ResolveRemotesToRepos_def Let_def split: sum.splits)
  have r: "remotes (fst (ResolveRemotesToRepos F client [] '''')) = []"
    by (simp add: ResolveRemotesToRepos_def Let_def sortStable_def split: sum.splits)
  show ?thesis
    by (simp add: BaseRepo_def HeadRepo_def RemoteForRepo_def n o r)
qed

theorem empty_set_queries_witness:
  "sameLength nullClient
   \<and> BaseRepo (fst (ResolveRemotesToRepos splitFullName nullClient [] '''')) = Inl NotFound
   \<and> HeadRepo (fst (ResolveRemotesToRepos splitFullName nullClient [] '''')) = Inl NoPushAccess
   \<and> RemoteForRepo (fst (ResolveRemotesToRepos splitFullName nullClient [] ''''))
        (IGhRepo \<lparr>ghOwner = ''cli'', ghName = ''cli''\<rparr>) = Inl NotFound"
  using sameLength_nullClient empty_set_queries [OF sameLength_nullClient, of splitFullName]
  by simp

text \<open>
  C8, as stated, has \<^verbatim>\<open>HeadRepo()\<close> fail with \<open>NotFound\<close> on that set; the code returns
  another error.
\<close>

theorem empty_set_HeadRepo_counterexample:
  "HeadRepo (fst (ResolveRemotesToRepos splitFullName nullClient [] '''')) \<noteq> Inl NotFound"
  by (simp add: ResolveRemotesToRepos_def Let_def lookupRepos_eq sortStable_def nullClient_def
      HeadRepo_def)

text \<open>
  C9. When the lookup call fails with the error \<open>e\<close>, \<^verbatim>\<open>ResolveRemotesToRepos\<close>
  returns \<open>e\<close> together with the result that holds the sorted Remote Set, the override
  candidate when the override string is not empty, and an empty metadata array. An error
  that \<^verbatim>\<open>ResolveRemotesToRepos\<close> returns is the error of the lookup call.
\<close>

theorem lookup_failure:
  "(client (lookupRepos F rs base) = Inl e
      \<longrightarrow> ResolveRemotesToRepos F client rs base =
            (\<lparr>baseOverride = (if base \<noteq> '''' then Some (IGhRepo (F base)) else None),
              remotes = sortStable rs,
              network = \<lparr>Repositories = []\<rparr>\<rparr>, Some e))
   \<and> (snd (ResolveRemotesToRepos F client rs base) = Some e
      \<longrightarrow> client (lookupRepos F rs base) = Inl e)"
  by (simp add: ResolveRemotesToRepos_def Let_def emptyNetworkResult_def split: sum.splits)

theorem lookup_failure_witness:
  "ResolveRemotesToRepos splitFullName failingClient sixRemotes ''other/repo'' =
     (\<lparr>baseOverride = Some (IGhRepo \<lparr>ghOwner = ''other'', ghName = ''repo''\<rparr>),
       remotes = sortStable sixRemotes,
       network = \<lparr>Repositories = []\<rparr>\<rparr>, Some (LookupFailed ''transport''))"
proof -
  have p: "splitFullName ''other/repo'' = \<lparr>ghOwner = ''other'', ghName = ''repo''\<rparr>"
    by (simp add: splitFullName_def)
  have f: "failingClient (lookupRepos splitFullName sixRemotes ''other/repo'') =
             Inl (LookupFailed ''transport'')"
    by (simp add: failingClient_def)
  show ?thesis
    using lookup_failure [of failingClient splitFullName sixRemotes "''other/repo''"
                             "LookupFailed ''transport''", THEN conjunct1, THEN mp, OF f]
    by (simp add: p)
qed




end
